theory Spec2Isabelle
  imports Main
begin

section \<open>Ships (battleship/ship.py)\<close>

text \<open>
  A cell is a pair of Python integers \<open>(x, y)\<close>. The exceptions the modelled code can
  raise are \<open>ValueError\<close> and \<open>TypeError\<close>; \<open>CellsNotASet\<close> stands for the one path
  on which \<open>Ship.__init__\<close> would store Python's \<open>None\<close> in \<open>self.cells\<close> (shown
  below never to be taken).
\<close>

type_synonym cell = "int \<times> int"

datatype error = ValueError | TypeError | CellsNotASet

record ship =
  x_start :: int
  y_start :: int
  x_end :: int
  y_end :: int
  cells :: "cell set"
  damaged_cells :: "cell set"

text \<open>
  A method that can fall off its end returns \<open>bool option\<close>: \<open>None\<close> is Python's
  \<open>None\<close>. \<open>truthy\<close> is the test an \<open>if\<close> statement applies to such a value.
\<close>

definition truthy :: "bool option \<Rightarrow> bool" where
  "truthy r = (r = Some True)"

definition is_vertical :: "ship \<Rightarrow> bool" where
  "is_vertical s = (if x_start s = x_end s then True else False)"

definition is_horizontal :: "ship \<Rightarrow> bool" where
  "is_horizontal s = (if y_start s = y_end s then True else False)"

definition get_cells :: "ship \<Rightarrow> cell set option" where
  "get_cells s =
     (if is_horizontal s then
        Some (set (map (\<lambda>x_coordinate. (x_coordinate, y_start s)) [x_start s..x_end s]))
      else if is_vertical s then
        Some (set (map (\<lambda>y_coordinate. (x_start s, y_coordinate)) [y_start s..y_end s]))
      else None)"

definition Ship_init :: "cell \<Rightarrow> cell \<Rightarrow> error + ship" where
  "Ship_init start end =
     (let s = \<lparr>x_start = min (fst start) (fst end), y_start = min (snd start) (snd end),
                x_end = max (fst start) (fst end), y_end = max (snd start) (snd end),
                cells = {}, damaged_cells = {}\<rparr>
      in if \<not> is_horizontal s \<and> \<not> is_vertical s then Inl ValueError
         else (case get_cells s of
                 Some cells_set \<Rightarrow> Inr (s\<lparr>cells := cells_set, damaged_cells := {}\<rparr>)
               | None \<Rightarrow> Inl CellsNotASet))"

definition length_ship :: "ship \<Rightarrow> int" where
  "length_ship s =
     (if is_horizontal s then int (card (cells s))
      else if is_vertical s then int (card (cells s))
      else 0)"

definition is_occupying_cell :: "ship \<Rightarrow> cell \<Rightarrow> bool option" where
  "is_occupying_cell s cell =
     (let check_x = fst cell; check_y = snd cell
      in if is_horizontal s \<and> y_start s = check_y then
           Some (list_ex (\<lambda>x_coordinate. check_x = x_coordinate) [x_start s..x_end s])
         else if is_vertical s \<and> x_start s = check_x then
           Some (list_ex (\<lambda>y_coordinate. check_y = y_coordinate) [y_start s..y_end s])
         else None)"

definition receive_damage :: "ship \<Rightarrow> cell \<Rightarrow> bool \<times> ship" where
  "receive_damage s cell =
     (if truthy (is_occupying_cell s cell)
      then (True, s\<lparr>damaged_cells := insert cell (damaged_cells s)\<rparr>)
      else (False, s))"

definition near :: "cell \<Rightarrow> cell \<Rightarrow> bool" where
  "near coordinates cell =
     ((fst coordinates - 1 \<le> fst cell \<and> fst cell \<le> fst coordinates + 1) \<and>
      (snd coordinates - 1 \<le> snd cell \<and> snd cell \<le> snd coordinates + 1))"

definition is_near_cell :: "ship \<Rightarrow> cell \<Rightarrow> bool option" where
  "is_near_cell s cell =
     (if is_horizontal s then Some (\<exists>coordinates \<in> cells s. near coordinates cell)
      else if is_vertical s then Some (\<exists>coordinates \<in> cells s. near coordinates cell)
      else None)"

definition is_near_ship :: "ship \<Rightarrow> ship \<Rightarrow> bool" where
  "is_near_ship s other_ship = (\<exists>cell \<in> cells other_ship. truthy (is_near_cell s cell))"

text \<open>
  The ships a program can hold: the results of the constructor, and what
  \<open>receive_damage\<close> (the only mutating method) makes of them.
\<close>

inductive constructed :: "ship \<Rightarrow> bool" where
  created: "Ship_init start end = Inr s \<Longrightarrow> constructed s"
| damaged: "constructed s \<Longrightarrow> constructed (snd (receive_damage s cell))"

text \<open>The Chebyshev distance of the specification.\<close>

definition chebyshev :: "cell \<Rightarrow> cell \<Rightarrow> int" where
  "chebyshev a b = max \<bar>fst a - fst b\<bar> \<bar>snd a - snd b\<bar>"

text \<open>
  The specification's wording of the constructor's precondition: the endpoints agree on
  exactly one of the two coordinates.
\<close>

definition share_exactly_one_axis :: "cell \<Rightarrow> cell \<Rightarrow> bool" where
  "share_exactly_one_axis a b = ((fst a = fst b) \<noteq> (snd a = snd b))"

text \<open>The two ships of the module's own sandbox.\<close>

abbreviation ship_3_3_to_5_3 :: ship where
  "ship_3_3_to_5_3 \<equiv>
     \<lparr>x_start = 3, y_start = 3, x_end = 5, y_end = 3,
      cells = {(3, 3), (4, 3), (5, 3)}, damaged_cells = {}\<rparr>"

abbreviation ship_4_1_to_4_5 :: ship where
  "ship_4_1_to_4_5 \<equiv>
     \<lparr>x_start = 4, y_start = 1, x_end = 4, y_end = 5,
      cells = {(4, 1), (4, 2), (4, 3), (4, 4), (4, 5)}, damaged_cells = {}\<rparr>"

section \<open>The ship factory (battleship/ship.py)\<close>

text \<open>
  A call that draws random numbers is a function of the values drawn. A call returns a
  value, raises, or is still inside a loop when the supplied draws are used up.
\<close>

datatype 'a outcome = Returns 'a | Raises error | Running

text \<open>
  Python's \<open>random.randrange(start, stop)\<close>: it raises \<open>ValueError\<close> on an empty range
  and otherwise returns one of \<open>start, \<dots>, stop - 1\<close>, here the one selected by the
  natural number \<open>r\<close>. \<open>random.randint(a, b)\<close> is \<open>randrange(a, b + 1)\<close>.
\<close>

definition randrange :: "int \<Rightarrow> int \<Rightarrow> nat \<Rightarrow> error + int" where
  "randrange start stop r =
     (if stop \<le> start then Inl ValueError else Inr (start + int r mod (stop - start)))"

definition randint :: "int \<Rightarrow> int \<Rightarrow> nat \<Rightarrow> error + int" where
  "randint a b r = randrange a (b + 1) r"

text \<open>
  One iteration of the placement loop draws the start cell's two coordinates and the
  result of \<open>random.choice([0, 1])\<close> (\<open>True\<close> for 1).
\<close>

type_synonym draw = "nat \<times> nat \<times> bool"

text \<open>
  The dictionary \<open>ships_per_length\<close> is the list of its items in iteration order; the
  keys of a dictionary are distinct.
\<close>

record ship_factory =
  board_size :: "int \<times> int"
  ships_per_length :: "(int \<times> int) list"

definition ShipFactory_init :: "(int \<times> int) option \<Rightarrow> (int \<times> int) list option \<Rightarrow> ship_factory" where
  "ShipFactory_init size_arg ships_arg =
     \<lparr>board_size = (case size_arg of None \<Rightarrow> (10, 10) | Some given_size \<Rightarrow> given_size),
      ships_per_length =
        (case ships_arg of None \<Rightarrow> [(1, 1), (2, 1), (3, 1), (4, 1), (5, 1)]
         | Some given \<Rightarrow> given)\<rparr>"

text \<open>The \<open>while dummy_variable\<close> loop of \<open>generate_ships\<close>, which places one ship.\<close>

fun place_ship :: "int \<Rightarrow> int \<Rightarrow> int \<Rightarrow> ship list \<Rightarrow> draw list \<Rightarrow> (ship list \<times> draw list) outcome" where
  "place_ship width height len ships [] = Running"
| "place_ship width height len ships ((rx, ry, is_hor) # draws) =
     (case randrange 1 (width + 1) rx of
        Inl e \<Rightarrow> Raises e
      | Inr x \<Rightarrow>
     (case randrange 1 (height + 1) ry of
        Inl e \<Rightarrow> Raises e
      | Inr y \<Rightarrow>
     (let start_coordinate = (x, y);
          end_coordinate = (if is_hor then (x + len - 1, y) else (x, y + len - 1))
      in if \<not> (width \<ge> fst end_coordinate \<and> fst end_coordinate > 0 \<and>
                height \<ge> snd end_coordinate \<and> snd end_coordinate > 0)
         then place_ship width height len ships draws
         else (case Ship_init start_coordinate end_coordinate of
                 Inl e \<Rightarrow> Raises e
               | Inr new_ship \<Rightarrow>
                   if length ships \<noteq> 0 then
                     (if list_ex (\<lambda>ship. is_near_ship ship new_ship) ships
                      then place_ship width height len ships draws
                      else Returns (ships @ [new_ship], draws))
                   else Returns (ships @ [new_ship], draws)))))"

text \<open>The loop \<open>for number in range(1, count + 1)\<close>, run \<open>n\<close> times.\<close>

fun place_ships_of_length :: "int \<Rightarrow> int \<Rightarrow> int \<Rightarrow> nat \<Rightarrow> ship list \<Rightarrow> draw list \<Rightarrow> (ship list \<times> draw list) outcome" where
  "place_ships_of_length width height len 0 ships draws = Returns (ships, draws)"
| "place_ships_of_length width height len (Suc n) ships draws =
     (case place_ship width height len ships draws of
        Returns (ships', draws') \<Rightarrow> place_ships_of_length width height len n ships' draws'
      | Raises e \<Rightarrow> Raises e
      | Running \<Rightarrow> Running)"

text \<open>The loop \<open>for length in self.ships_per_length\<close>.\<close>

fun place_fleet :: "int \<Rightarrow> int \<Rightarrow> (int \<times> int) list \<Rightarrow> ship list \<Rightarrow> draw list \<Rightarrow> (ship list \<times> draw list) outcome" where
  "place_fleet width height [] ships draws = Returns (ships, draws)"
| "place_fleet width height ((len, count) # rest) ships draws =
     (case place_ships_of_length width height len (nat count) ships draws of
        Returns (ships', draws') \<Rightarrow> place_fleet width height rest ships' draws'
      | Raises e \<Rightarrow> Raises e
      | Running \<Rightarrow> Running)"

definition generate_ships :: "ship_factory \<Rightarrow> draw list \<Rightarrow> ship list outcome" where
  "generate_ships factory draws =
     (let width = fst (board_size factory); height = snd (board_size factory)
      in case place_fleet width height (ships_per_length factory) [] draws of
           Returns (ships, _) \<Rightarrow> Returns ships
         | Raises e \<Rightarrow> Raises e
         | Running \<Rightarrow> Running)"

text \<open>What one accepted candidate of the placement loop looks like.\<close>

definition placed :: "int \<Rightarrow> int \<Rightarrow> int \<Rightarrow> ship list \<Rightarrow> ship \<Rightarrow> bool" where
  "placed w h len ships new =
     (constructed new \<and> length_ship new = \<bar>len - 1\<bar> + 1 \<and> cells new \<subseteq> {1..w} \<times> {1..h} \<and>
      (\<forall>s \<in> set ships. \<not> is_near_ship s new))"

text \<open>The invariant of the list \<open>ships\<close> throughout \<open>generate_ships\<close>.\<close>

definition fleet_ok :: "int \<Rightarrow> int \<Rightarrow> ship list \<Rightarrow> bool" where
  "fleet_ok w h ships =
     ((\<forall>s \<in> set ships. constructed s \<and> cells s \<subseteq> {1..w} \<times> {1..h}) \<and>
      sorted_wrt (\<lambda>a b. \<not> is_near_ship a b) ships)"

text \<open>The length of the ship that the loop builds for the key \<open>len\<close>.\<close>

definition built_length :: "int \<Rightarrow> int" where
  "built_length len = \<bar>len - 1\<bar> + 1"

text \<open>A fleet that the default factory can return.\<close>

abbreviation fleet_example :: "ship list" where
  "fleet_example \<equiv>
     [\<lparr>x_start = 1, y_start = 1, x_end = 1, y_end = 1, cells = {(1, 1)}, damaged_cells = {}\<rparr>,
      \<lparr>x_start = 1, y_start = 3, x_end = 2, y_end = 3, cells = {(1, 3), (2, 3)},
         damaged_cells = {}\<rparr>,
      \<lparr>x_start = 1, y_start = 5, x_end = 3, y_end = 5, cells = {(1, 5), (2, 5), (3, 5)},
         damaged_cells = {}\<rparr>,
      \<lparr>x_start = 1, y_start = 7, x_end = 4, y_end = 7,
         cells = {(1, 7), (2, 7), (3, 7), (4, 7)}, damaged_cells = {}\<rparr>,
      \<lparr>x_start = 1, y_start = 9, x_end = 5, y_end = 9,
         cells = {(1, 9), (2, 9), (3, 9), (4, 9), (5, 9)}, damaged_cells = {}\<rparr>]"

text \<open>Two ships in the corner of the board.\<close>

abbreviation ship_1_1_to_1_1 :: ship where
  "ship_1_1_to_1_1 \<equiv>
     \<lparr>x_start = 1, y_start = 1, x_end = 1, y_end = 1, cells = {(1, 1)}, damaged_cells = {}\<rparr>"

abbreviation ship_1_1_to_2_1 :: ship where
  "ship_1_1_to_2_1 \<equiv>
     \<lparr>x_start = 1, y_start = 1, x_end = 2, y_end = 1, cells = {(1, 1), (2, 1)},
      damaged_cells = {}\<rparr>"

section \<open>The automatic player (battleship/player.py)\<close>

text \<open>
  The attributes of an \<open>AutomaticPlayer\<close>. The board comes from \<open>battleship.board\<close>; the
  player reads only its \<open>width\<close> and \<open>height\<close>, which are parameters here. A target is a
  \<open>cell option\<close> because \<open>strategy_function\<close> can fall off its end and return \<open>None\<close>,
  which \<open>select_target\<close> then stores and returns like any other value.
\<close>

record player =
  board_width :: int
  board_height :: int
  implement_strategy :: bool
  attacked_positions :: "cell option list"
  previous_coordinates :: "cell option"
  cycle :: int
  save_ship_initial :: "cell option"

definition AutomaticPlayer_init :: "int \<Rightarrow> int \<Rightarrow> player" where
  "AutomaticPlayer_init width height =
     \<lparr>board_width = width, board_height = height, implement_strategy = False,
      attacked_positions = [], previous_coordinates = None, cycle = 0,
      save_ship_initial = None\<rparr>"

definition within_board :: "player \<Rightarrow> cell \<Rightarrow> bool" where
  "within_board p coordinates =
     (0 < fst coordinates \<and> fst coordinates \<le> board_width p \<and>
      0 < snd coordinates \<and> snd coordinates \<le> board_height p)"

text \<open>
  \<open>strategy_function\<close> is four \<open>if\<close> statements in sequence, each returning from inside
  or changing \<open>self.cycle\<close> and falling through to the next; \<open>probe_from k\<close> is the
  function's text from the \<open>if self.cycle == k\<close> statement on.
\<close>

definition probe_from_3 :: "player \<Rightarrow> int \<Rightarrow> int \<Rightarrow> cell option \<times> player" where
  "probe_from_3 p x y =
     (if cycle p = 3 then
        (if within_board p (x - 1, y) then (Some (x - 1, y), p)
         else (None, p\<lparr>cycle := 0\<rparr>))
      else (None, p))"

definition probe_from_2 :: "player \<Rightarrow> int \<Rightarrow> int \<Rightarrow> cell option \<times> player" where
  "probe_from_2 p x y =
     (if cycle p = 2 then
        (if within_board p (x, y - 1) then (Some (x, y - 1), p)
         else probe_from_3 (p\<lparr>cycle := cycle p + 1\<rparr>) x y)
      else probe_from_3 p x y)"

definition probe_from_1 :: "player \<Rightarrow> int \<Rightarrow> int \<Rightarrow> cell option \<times> player" where
  "probe_from_1 p x y =
     (if cycle p = 1 then
        (if within_board p (x + 1, y) then (Some (x + 1, y), p)
         else probe_from_2 (p\<lparr>cycle := cycle p + 1\<rparr>) x y)
      else probe_from_2 p x y)"

definition probe_from_0 :: "player \<Rightarrow> int \<Rightarrow> int \<Rightarrow> cell option \<times> player" where
  "probe_from_0 p x y =
     (if cycle p = 0 then
        (if within_board p (x, y + 1) then (Some (x, y + 1), p)
         else probe_from_1 (p\<lparr>cycle := cycle p + 1\<rparr>) x y)
      else probe_from_1 p x y)"

text \<open>Unpacking \<open>x, y = self.previous_coordinates\<close> raises \<open>TypeError\<close> on \<open>None\<close>.\<close>

definition strategy_function :: "player \<Rightarrow> error + (cell option \<times> player)" where
  "strategy_function p =
     (case previous_coordinates p of
        None \<Rightarrow> Inl TypeError
      | Some (x, y) \<Rightarrow> Inr (probe_from_0 p x y))"

definition get_random_coordinates :: "player \<Rightarrow> nat \<times> nat \<Rightarrow> error + cell" where
  "get_random_coordinates p r =
     (case randint 1 (board_width p) (fst r) of
        Inl e \<Rightarrow> Inl e
      | Inr x \<Rightarrow>
     (case randint 1 (board_height p) (snd r) of
        Inl e \<Rightarrow> Inl e
      | Inr y \<Rightarrow> Inr (x, y)))"

text \<open>
  The random branch of \<open>select_target\<close>: draw, and draw again while the cell drawn is in
  \<open>attacked_positions\<close>.
\<close>

fun random_target :: "player \<Rightarrow> (nat \<times> nat) list \<Rightarrow> cell outcome" where
  "random_target p [] = Running"
| "random_target p (r # rs) =
     (case get_random_coordinates p r of
        Inl e \<Rightarrow> Raises e
      | Inr coordinates \<Rightarrow>
          if Some coordinates \<in> set (attacked_positions p) then random_target p rs
          else Returns coordinates)"

definition record_target :: "player \<Rightarrow> cell option \<Rightarrow> cell option \<times> player" where
  "record_target p coordinates =
     (coordinates,
      p\<lparr>previous_coordinates := coordinates,
        attacked_positions := attacked_positions p @ [coordinates]\<rparr>)"

definition select_target :: "player \<Rightarrow> (nat \<times> nat) list \<Rightarrow> (cell option \<times> player) outcome" where
  "select_target p rs =
     (if implement_strategy p then
        (case strategy_function p of
           Inl e \<Rightarrow> Raises e
         | Inr (coordinates, p') \<Rightarrow> Returns (record_target p' coordinates))
      else
        (case random_target p rs of
           Returns coordinates \<Rightarrow> Returns (record_target p (Some coordinates))
         | Raises e \<Rightarrow> Raises e
         | Running \<Rightarrow> Running))"

text \<open>
  \<open>receive_result\<close>. Indexing \<open>None\<close> (\<open>self.previous_coordinates[0]\<close>,
  \<open>self.save_ship_initial[0]\<close>) raises \<open>TypeError\<close>.
\<close>

definition receive_result :: "player \<Rightarrow> bool \<Rightarrow> bool \<Rightarrow> error + player" where
  "receive_result p is_ship_hit has_ship_sunk =
     (if is_ship_hit \<and> \<not> has_ship_sunk then
        (if save_ship_initial p = None then
           (case previous_coordinates p of
              None \<Rightarrow> Inl TypeError
            | Some (x, y) \<Rightarrow> Inr (p\<lparr>implement_strategy := True, save_ship_initial := Some (x, y)\<rparr>))
         else Inr (p\<lparr>implement_strategy := True\<rparr>))
      else if has_ship_sunk then
        Inr (p\<lparr>implement_strategy := False, cycle := 0, save_ship_initial := None\<rparr>)
      else if \<not> is_ship_hit \<and> implement_strategy p \<and> cycle p < 4 then
        (case save_ship_initial p of
           None \<Rightarrow> Inl TypeError
         | Some (x, y) \<Rightarrow> Inr (p\<lparr>cycle := cycle p + 1, previous_coordinates := Some (x, y)\<rparr>))
      else Inr p)"

text \<open>
  A play is a sequence of calls on one player: \<open>select_target\<close>, with the numbers its
  random branch draws, and \<open>receive_result\<close>, with its two arguments. \<open>play\<close> runs the
  calls in order and returns the targets selected and the player they leave; it stops
  at the first call that raises or does not return.
\<close>

datatype call = Select "(nat \<times> nat) list" | Result bool bool

fun play :: "call list \<Rightarrow> cell option list \<Rightarrow> player \<Rightarrow> (cell option list \<times> player) outcome" where
  "play [] targets p = Returns (targets, p)"
| "play (Select rs # calls) targets p =
     (case select_target p rs of
        Returns (coordinates, p') \<Rightarrow> play calls (targets @ [coordinates]) p'
      | Raises e \<Rightarrow> Raises e
      | Running \<Rightarrow> Running)"
| "play (Result is_ship_hit has_ship_sunk # calls) targets p =
     (case receive_result p is_ship_hit has_ship_sunk of
        Inr p' \<Rightarrow> play calls targets p'
      | Inl e \<Rightarrow> Raises e)"





abbreviation miss_only_calls :: "call list" where
  "miss_only_calls \<equiv>
     [Select [(4, 4)], Result True False, Select [], Result False False,
      Select [], Result False False, Select [], Result False False,
      Select [], Result False False]"

abbreviation after_four_misses :: player where
  "after_four_misses \<equiv>
     \<lparr>board_width = 10, board_height = 10, implement_strategy = True,
      attacked_positions = [Some (5, 5), Some (5, 6), Some (6, 5), Some (5, 4), Some (4, 5)],
      previous_coordinates = Some (5, 5), cycle = 4, save_ship_initial = Some (5, 5)\<rparr>"


abbreviation hunting_after_random_miss :: player where
  "hunting_after_random_miss \<equiv>
     \<lparr>board_width = 10, board_height = 10, implement_strategy = True,
      attacked_positions = [Some (5, 6), Some (5, 5)],
      previous_coordinates = Some (5, 5), cycle = 0, save_ship_initial = Some (5, 5)\<rparr>"


section \<open>Properties of ships\<close>

lemma near_chebyshev: "near a b \<longleftrightarrow> chebyshev a b \<le> 1"
  by (auto simp: near_def chebyshev_def)

lemma near_sym: "near a b \<longleftrightarrow> near b a"
  by (auto simp: near_def)

lemma Ship_init_cases:
  "Ship_init start end =
     (if fst start \<noteq> fst end \<and> snd start \<noteq> snd end then Inl ValueError
      else Inr \<lparr>x_start = min (fst start) (fst end), y_start = min (snd start) (snd end),
                x_end = max (fst start) (fst end), y_end = max (snd start) (snd end),
                cells = {min (fst start) (fst end)..max (fst start) (fst end)} \<times>
                        {min (snd start) (snd end)..max (snd start) (snd end)},
                damaged_cells = {}\<rparr>)"
  by (auto simp: Ship_init_def Let_def is_horizontal_def is_vertical_def get_cells_def)

lemma Ship_init_shape:
  assumes "Ship_init start end = Inr s"
  shows "x_start s \<le> x_end s \<and> y_start s \<le> y_end s \<and>
         (x_start s = x_end s \<or> y_start s = y_end s) \<and>
         cells s = {x_start s..x_end s} \<times> {y_start s..y_end s}"
  using assms by (auto simp: Ship_init_cases split: if_splits)

lemma receive_damage_frame:
  "x_start (snd (receive_damage s c)) = x_start s"
  "y_start (snd (receive_damage s c)) = y_start s"
  "x_end (snd (receive_damage s c)) = x_end s"
  "y_end (snd (receive_damage s c)) = y_end s"
  "cells (snd (receive_damage s c)) = cells s"
  by (simp_all add: receive_damage_def)

lemma constructed_shape:
  assumes "constructed s"
  shows "x_start s \<le> x_end s \<and> y_start s \<le> y_end s \<and>
         (x_start s = x_end s \<or> y_start s = y_end s) \<and>
         cells s = {x_start s..x_end s} \<times> {y_start s..y_end s}"
  using assms
proof (induction rule: constructed.induct)
  case (created start "end" s)
  then show ?case by (rule Ship_init_shape)
next
  case (damaged s cell)
  then show ?case by (simp only: receive_damage_frame)
qed

lemma is_occupying_cell_truthy:
  assumes "constructed s"
  shows "truthy (is_occupying_cell s c) \<longleftrightarrow> c \<in> cells s"
proof -
  obtain cx cy where c: "c = (cx, cy)" by (cases c)
  from constructed_shape[OF assms] show ?thesis
    unfolding c
    by (auto simp: truthy_def is_occupying_cell_def Let_def is_horizontal_def
        is_vertical_def list_ex_iff)
qed

lemma is_near_cell_constructed:
  assumes "constructed s"
  shows "is_near_cell s c = Some (\<exists>coordinates \<in> cells s. near coordinates c)"
  using constructed_shape[OF assms]
  by (auto simp: is_near_cell_def is_horizontal_def is_vertical_def)

lemma is_near_ship_constructed:
  assumes "constructed s"
  shows "is_near_ship s other \<longleftrightarrow> (\<exists>a \<in> cells s. \<exists>b \<in> cells other. near a b)"
  by (auto simp: is_near_ship_def is_near_cell_constructed[OF assms] truthy_def)

lemma Ship_init_3_3_to_5_3: "Ship_init (3, 3) (5, 3) = Inr ship_3_3_to_5_3"
  by (simp add: Ship_init_def is_horizontal_def is_vertical_def get_cells_def Let_def)

lemma Ship_init_4_1_to_4_5: "Ship_init (4, 1) (4, 5) = Inr ship_4_1_to_4_5"
  by (simp add: Ship_init_def is_horizontal_def is_vertical_def get_cells_def Let_def upto.simps)

lemma constructed_3_3_to_5_3: "constructed ship_3_3_to_5_3"
  by (rule constructed.created[OF Ship_init_3_3_to_5_3])

lemma constructed_4_1_to_4_5: "constructed ship_4_1_to_4_5"
  by (rule constructed.created[OF Ship_init_4_1_to_4_5])

lemma is_occupying_cell_damaged_cells_update:
  "is_occupying_cell (s\<lparr>damaged_cells := d\<rparr>) c = is_occupying_cell s c"
  by (simp add: is_occupying_cell_def is_horizontal_def is_vertical_def Let_def)

text \<open>
  Claim C3. For every constructed ship and every cell, \<open>receive_damage\<close> returns \<open>True\<close>
  exactly when the cell is one of the ship's occupied cells (which is exactly when
  \<open>is_occupying_cell\<close> is truthy). When it returns \<open>True\<close> the only change is that the cell
  is added to \<open>damaged_cells\<close>; when it returns \<open>False\<close> the ship is unchanged. Damaging
  an occupied cell that is already damaged returns \<open>True\<close> and changes nothing, so a second
  call on the same cell gives the result and the ship of the first.
\<close>

theorem receive_damage_iff_occupies:
  assumes "constructed s"
  shows "fst (receive_damage s c) = (c \<in> cells s) \<and>
         fst (receive_damage s c) = truthy (is_occupying_cell s c) \<and>
         snd (receive_damage s c) =
           (if c \<in> cells s then s\<lparr>damaged_cells := insert c (damaged_cells s)\<rparr> else s) \<and>
         (if c \<in> cells s \<and> c \<in> damaged_cells s then receive_damage s c = (True, s) else True) \<and>
         receive_damage (snd (receive_damage s c)) c = receive_damage s c"
proof -
  have occ: "truthy (is_occupying_cell s c) = (c \<in> cells s)"
    by (rule is_occupying_cell_truthy[OF assms])
  show ?thesis
    by (simp add: receive_damage_def occ is_occupying_cell_damaged_cells_update insert_absorb)
qed

theorem receive_damage_iff_occupies_witness:
  "receive_damage ship_3_3_to_5_3 (4, 3) =
     (True, ship_3_3_to_5_3\<lparr>damaged_cells := {(4, 3)}\<rparr>) \<and>
   receive_damage (ship_3_3_to_5_3\<lparr>damaged_cells := {(4, 3)}\<rparr>) (4, 3) =
     (True, ship_3_3_to_5_3\<lparr>damaged_cells := {(4, 3)}\<rparr>) \<and>
   receive_damage ship_3_3_to_5_3 (10, 3) = (False, ship_3_3_to_5_3)"
proof -
  have hit: "receive_damage ship_3_3_to_5_3 (4, 3) =
      (True, ship_3_3_to_5_3\<lparr>damaged_cells := {(4, 3)}\<rparr>)"
    using receive_damage_iff_occupies[OF constructed_3_3_to_5_3, of "(4, 3)"]
    by (simp add: prod_eq_iff)
  have again: "receive_damage (ship_3_3_to_5_3\<lparr>damaged_cells := {(4, 3)}\<rparr>) (4, 3) =
      (True, ship_3_3_to_5_3\<lparr>damaged_cells := {(4, 3)}\<rparr>)"
    using receive_damage_iff_occupies[OF constructed_3_3_to_5_3, of "(4, 3)"] hit
    by simp
  have miss: "receive_damage ship_3_3_to_5_3 (10, 3) = (False, ship_3_3_to_5_3)"
    using receive_damage_iff_occupies[OF constructed_3_3_to_5_3, of "(10, 3)"]
    by (simp add: prod_eq_iff)
  from hit again miss show ?thesis by simp
qed


text \<open>
  Claim C4, as stated, fails for equal endpoints: the endpoints \<open>(3, 3)\<close> and \<open>(3, 3)\<close> do
  not share exactly one axis value (they share both), and the constructor returns a ship
  of one cell instead of raising.
\<close>

theorem Ship_init_equal_endpoints_counterexample:
  "\<not> share_exactly_one_axis (3, 3) (3, 3) \<and>
   Ship_init (3, 3) (3, 3) =
     Inr \<lparr>x_start = 3, y_start = 3, x_end = 3, y_end = 3,
          cells = {(3, 3)}, damaged_cells = {}\<rparr>"
  by (simp add: share_exactly_one_axis_def Ship_init_def is_horizontal_def is_vertical_def
      get_cells_def Let_def)

text \<open>
  Claim C4, amended. The constructor raises \<open>ValueError\<close> exactly when the normalised
  endpoints share no axis value, that is when the given endpoints differ in both
  coordinates; in every other case (a horizontal line, a vertical line, or equal
  endpoints) it returns a ship. It raises nothing else, and a raising call yields no
  ship: the result is \<open>Inl\<close>, which carries none.
\<close>

theorem Ship_init_raises_iff:
  "(Ship_init start end = Inl ValueError) =
     (min (fst start) (fst end) \<noteq> max (fst start) (fst end) \<and>
      min (snd start) (snd end) \<noteq> max (snd start) (snd end)) \<and>
   (Ship_init start end = Inl ValueError) = (fst start \<noteq> fst end \<and> snd start \<noteq> snd end) \<and>
   (\<exists>s. Ship_init start end = Inr s) = (fst start = fst end \<or> snd start = snd end) \<and>
   Ship_init start end \<noteq> Inl TypeError \<and> Ship_init start end \<noteq> Inl CellsNotASet"
  by (auto simp: Ship_init_cases)

theorem Ship_init_raises_iff_witness:
  "Ship_init (3, 3) (4, 4) = Inl ValueError \<and> (\<exists>s. Ship_init (3, 3) (3, 3) = Inr s) \<and>
   (\<exists>s. Ship_init (5, 3) (3, 3) = Inr s)"
  using Ship_init_raises_iff[of "(3, 3)" "(4, 4)"] Ship_init_raises_iff[of "(3, 3)" "(3, 3)"]
    Ship_init_raises_iff[of "(5, 3)" "(3, 3)"]
  by simp

text \<open>
  Claim C5 says that \<open>is_occupying_cell\<close> returns \<open>False\<close> for every cell that is not
  occupied. For the ship from \<open>(3, 3)\<close> to \<open>(5, 3)\<close> and the unoccupied cell \<open>(4, 4)\<close>
  neither branch of the method is entered and it falls off its end: the result is
  Python's \<open>None\<close>, not \<open>False\<close>.
\<close>

theorem is_occupying_cell_falls_through:
  "Ship_init (3, 3) (5, 3) = Inr ship_3_3_to_5_3 \<and>
   (4, 4) \<notin> cells ship_3_3_to_5_3 \<and>
   is_occupying_cell ship_3_3_to_5_3 (4, 4) = None \<and>
   is_occupying_cell ship_3_3_to_5_3 (4, 4) \<noteq> Some False"
  by (simp add: Ship_init_3_3_to_5_3 is_occupying_cell_def is_horizontal_def is_vertical_def)

text \<open>
  Claim C7. For every constructed ship and every cell, \<open>is_near_cell\<close> returns a Boolean,
  and it is \<open>True\<close> exactly when the cell is within Chebyshev distance 1 of some occupied
  cell of the ship. For the ship from \<open>(3, 3)\<close> to \<open>(5, 3)\<close> the results at \<open>(5, 3)\<close>,
  \<open>(6, 3)\<close> and \<open>(6, 4)\<close> are \<open>True\<close>, and the result at \<open>(7, 3)\<close> is \<open>False\<close>.
\<close>

theorem is_near_cell_iff_chebyshev:
  "(if constructed s
    then is_near_cell s c = Some (\<exists>occupied \<in> cells s. chebyshev occupied c \<le> 1)
    else True) \<and>
   Ship_init (3, 3) (5, 3) = Inr ship_3_3_to_5_3 \<and>
   is_near_cell ship_3_3_to_5_3 (5, 3) = Some True \<and>
   is_near_cell ship_3_3_to_5_3 (6, 3) = Some True \<and>
   is_near_cell ship_3_3_to_5_3 (6, 4) = Some True \<and>
   is_near_cell ship_3_3_to_5_3 (7, 3) = Some False"
proof -
  have general: "is_near_cell s c = Some (\<exists>occupied \<in> cells s. chebyshev occupied c \<le> 1)"
    if "constructed s"
    by (simp add: is_near_cell_constructed[OF that] near_chebyshev)
  have concrete:
    "is_near_cell ship_3_3_to_5_3 (5, 3) = Some True"
    "is_near_cell ship_3_3_to_5_3 (6, 3) = Some True"
    "is_near_cell ship_3_3_to_5_3 (6, 4) = Some True"
    "is_near_cell ship_3_3_to_5_3 (7, 3) = Some False"
    by (simp_all add: is_near_cell_def is_horizontal_def near_def)
  from general concrete Ship_init_3_3_to_5_3 show ?thesis by simp
qed

theorem is_near_cell_iff_chebyshev_witness:
  "constructed ship_3_3_to_5_3 \<and>
   is_near_cell ship_3_3_to_5_3 (6, 4) =
     Some (\<exists>occupied \<in> {(3, 3), (4, 3), (5, 3)}. chebyshev occupied (6, 4) \<le> 1) \<and>
   chebyshev (5, 3) (6, 4) = 1"
  using is_near_cell_iff_chebyshev[of ship_3_3_to_5_3 "(6, 4)"] constructed_3_3_to_5_3
  by (simp add: chebyshev_def)

text \<open>
  Claim C9. For every two constructed ships, \<open>is_near_ship\<close> gives the same answer in
  both directions.
\<close>

theorem is_near_ship_symmetric:
  assumes "constructed s1" and "constructed s2"
  shows "is_near_ship s1 s2 = is_near_ship s2 s1"
proof -
  have "is_near_ship s1 s2 \<longleftrightarrow> (\<exists>a \<in> cells s1. \<exists>b \<in> cells s2. near a b)"
    by (rule is_near_ship_constructed[OF assms(1)])
  also have "\<dots> \<longleftrightarrow> (\<exists>b \<in> cells s2. \<exists>a \<in> cells s1. near b a)"
    using near_sym by blast
  also have "\<dots> \<longleftrightarrow> is_near_ship s2 s1"
    by (rule is_near_ship_constructed[OF assms(2), symmetric])
  finally show ?thesis .
qed

theorem is_near_ship_symmetric_witness:
  "constructed ship_3_3_to_5_3 \<and> constructed ship_4_1_to_4_5 \<and>
   is_near_ship ship_3_3_to_5_3 ship_4_1_to_4_5 \<and>
   is_near_ship ship_4_1_to_4_5 ship_3_3_to_5_3"
proof -
  have "is_near_ship ship_3_3_to_5_3 ship_4_1_to_4_5"
    by (simp add: is_near_ship_def is_near_cell_def is_horizontal_def near_def truthy_def)
  with is_near_ship_symmetric[OF constructed_3_3_to_5_3 constructed_4_1_to_4_5]
    constructed_3_3_to_5_3 constructed_4_1_to_4_5
  show ?thesis by simp
qed

section \<open>Properties of the ship factory\<close>

lemma randrange_from_1:
  assumes "randrange 1 (w + 1) r = Inr x"
  shows "1 \<le> x \<and> x \<le> w"
proof -
  from assms have w: "0 < w" and x: "x = 1 + int r mod w"
    by (auto simp: randrange_def split: if_splits)
  from w have "0 \<le> int r mod w" "int r mod w < w" by simp_all
  with x show ?thesis by simp
qed

lemma length_ship_Ship_init:
  assumes "Ship_init start end = Inr s"
  shows "length_ship s = (\<bar>fst end - fst start\<bar> + 1) * (\<bar>snd end - snd start\<bar> + 1)"
proof -
  from assms have shape: "fst start = fst end \<or> snd start = snd end"
    and s: "s = \<lparr>x_start = min (fst start) (fst end), y_start = min (snd start) (snd end),
                x_end = max (fst start) (fst end), y_end = max (snd start) (snd end),
                cells = {min (fst start) (fst end)..max (fst start) (fst end)} \<times>
                        {min (snd start) (snd end)..max (snd start) (snd end)},
                damaged_cells = {}\<rparr>"
    by (auto simp: Ship_init_cases split: if_splits)
  have "int (card (cells s)) = (\<bar>fst end - fst start\<bar> + 1) * (\<bar>snd end - snd start\<bar> + 1)"
    unfolding s by (simp add: card_cartesian_product min_def max_def)
  with shape show ?thesis
    unfolding length_ship_def is_horizontal_def is_vertical_def s by auto
qed

lemma cells_Ship_init_within:
  assumes "Ship_init start end = Inr s"
    and "1 \<le> fst start" "fst start \<le> w" "1 \<le> snd start" "snd start \<le> h"
    and "1 \<le> fst end" "fst end \<le> w" "1 \<le> snd end" "snd end \<le> h"
  shows "cells s \<subseteq> {1..w} \<times> {1..h}"
  using assms by (auto simp: Ship_init_cases split: if_splits)

lemma place_ship_Returns:
  assumes "place_ship w h len ships draws = Returns (ships', draws')"
  shows "\<exists>new. ships' = ships @ [new] \<and> placed w h len ships new"
  using assms
proof (induction draws)
  case Nil
  then show ?case by simp
next
  case (Cons d draws)
  obtain rx ry is_hor where d: "d = (rx, ry, is_hor)" by (cases d)
  show ?case
  proof (cases "randrange 1 (w + 1) rx")
    case (Inl e)
    with Cons.prems d show ?thesis by simp
  next
    case x: (Inr x)
    show ?thesis
    proof (cases "randrange 1 (h + 1) ry")
      case (Inl e)
      with Cons.prems d x show ?thesis by simp
    next
      case y: (Inr y)
      define e where "e = (if is_hor then (x + len - 1, y) else (x, y + len - 1))"
      have xb: "1 \<le> x \<and> x \<le> w" by (rule randrange_from_1[OF x])
      have yb: "1 \<le> y \<and> y \<le> h" by (rule randrange_from_1[OF y])
      have step: "place_ship w h len ships (d # draws) =
        (if \<not> (w \<ge> fst e \<and> fst e > 0 \<and> h \<ge> snd e \<and> snd e > 0)
         then place_ship w h len ships draws
         else (case Ship_init (x, y) e of
                 Inl err \<Rightarrow> Raises err
               | Inr new_ship \<Rightarrow>
                   if length ships \<noteq> 0 then
                     (if list_ex (\<lambda>ship. is_near_ship ship new_ship) ships
                      then place_ship w h len ships draws
                      else Returns (ships @ [new_ship], draws))
                   else Returns (ships @ [new_ship], draws)))"
        unfolding d e_def by (simp add: x y Let_def)
      show ?thesis
      proof (cases "w \<ge> fst e \<and> fst e > 0 \<and> h \<ge> snd e \<and> snd e > 0")
        case False
        with Cons.prems step have "place_ship w h len ships draws = Returns (ships', draws')"
          by simp
        then show ?thesis by (rule Cons.IH)
      next
        case inb: True
        show ?thesis
        proof (cases "Ship_init (x, y) e")
          case (Inl err)
          with Cons.prems step inb show ?thesis by simp
        next
          case new: (Inr new)
          have len: "length_ship new = \<bar>len - 1\<bar> + 1"
            using length_ship_Ship_init[OF new] by (auto simp: e_def split: if_splits)
          have within: "cells new \<subseteq> {1..w} \<times> {1..h}"
            by (rule cells_Ship_init_within[OF new]) (use xb yb inb in auto)
          have con: "constructed new" by (rule constructed.created[OF new])
          show ?thesis
          proof (cases "list_ex (\<lambda>ship. is_near_ship ship new) ships")
            case True
            then have "ships \<noteq> []" by (auto simp: list_ex_iff)
            with Cons.prems step inb new True
            have "place_ship w h len ships draws = Returns (ships', draws')" by simp
            then show ?thesis by (rule Cons.IH)
          next
            case False
            with Cons.prems step inb new have "ships' = ships @ [new]"
              by (simp split: if_splits)
            moreover from False have "\<forall>s \<in> set ships. \<not> is_near_ship s new"
              by (simp add: list_ex_iff)
            ultimately show ?thesis using len within con by (simp add: placed_def)
          qed
        qed
      qed
    qed
  qed
qed

lemma fleet_ok_Nil: "fleet_ok w h []"
  by (simp add: fleet_ok_def)

lemma fleet_ok_snoc:
  assumes "fleet_ok w h ships" and "placed w h len ships new"
  shows "fleet_ok w h (ships @ [new])"
  using assms by (auto simp: fleet_ok_def placed_def sorted_wrt_append)

lemma place_ships_of_length_Returns:
  assumes "place_ships_of_length w h len n ships draws = Returns (ships', draws')"
    and "fleet_ok w h ships"
  shows "fleet_ok w h ships' \<and>
         map length_ship ships' = map length_ship ships @ replicate n (built_length len)"
  using assms
proof (induction n arbitrary: ships draws)
  case 0
  then show ?case by simp
next
  case (Suc n)
  from Suc.prems(1) obtain ships1 draws1
    where one: "place_ship w h len ships draws = Returns (ships1, draws1)"
      and rest: "place_ships_of_length w h len n ships1 draws1 = Returns (ships', draws')"
    by (auto split: outcome.splits)
  from place_ship_Returns[OF one] obtain new
    where ships1: "ships1 = ships @ [new]" and new: "placed w h len ships new"
    by blast
  have ok1: "fleet_ok w h ships1"
    unfolding ships1 by (rule fleet_ok_snoc[OF Suc.prems(2) new])
  from new have "length_ship new = built_length len"
    by (simp add: placed_def built_length_def)
  with Suc.IH[OF rest ok1] ships1 show ?case
    by (simp add: replicate_append_same)
qed

lemma place_fleet_Returns:
  assumes "place_fleet w h spl ships draws = Returns (ships', draws')"
    and "fleet_ok w h ships"
  shows "fleet_ok w h ships' \<and>
         map length_ship ships' =
           map length_ship ships @
           concat (map (\<lambda>(len, count). replicate (nat count) (built_length len)) spl)"
  using assms
proof (induction spl arbitrary: ships draws)
  case Nil
  then show ?case by simp
next
  case (Cons entry spl)
  obtain len count where entry: "entry = (len, count)" by (cases entry)
  from Cons.prems(1) obtain ships1 draws1
    where one: "place_ships_of_length w h len (nat count) ships draws = Returns (ships1, draws1)"
      and rest: "place_fleet w h spl ships1 draws1 = Returns (ships', draws')"
    unfolding entry by (auto split: outcome.splits)
  from place_ships_of_length_Returns[OF one Cons.prems(2)]
  have ok1: "fleet_ok w h ships1"
    and len1: "map length_ship ships1 =
      map length_ship ships @ replicate (nat count) (built_length len)"
    by simp_all
  from Cons.IH[OF rest ok1] len1 show ?case
    unfolding entry by simp
qed

lemma generate_ships_Returns:
  assumes "generate_ships factory draws = Returns ships"
  shows "fleet_ok (fst (board_size factory)) (snd (board_size factory)) ships \<and>
         map length_ship ships =
           concat (map (\<lambda>(len, count). replicate (nat count) (built_length len))
             (ships_per_length factory))"
proof -
  from assms obtain draws'
    where "place_fleet (fst (board_size factory)) (snd (board_size factory))
             (ships_per_length factory) [] draws = Returns (ships, draws')"
    by (auto simp: generate_ships_def Let_def split: outcome.splits)
  from place_fleet_Returns[OF this fleet_ok_Nil] show ?thesis by simp
qed

lemma count_in_replicated:
  assumes "distinct (map fst spl)" and "(len, count) \<in> set spl"
  shows "length (filter (\<lambda>n. n = len)
           (concat (map (\<lambda>(len, count). replicate (nat count) len) spl))) = nat count"
  using assms
proof (induction spl)
  case Nil
  then show ?case by simp
next
  case (Cons entry spl)
  obtain l c where entry: "entry = (l, c)" by (cases entry)
  show ?case
  proof (cases "l = len")
    case True
    with Cons.prems entry have c: "c = count" and fresh: "len \<notin> fst ` set spl"
      by (auto simp: image_iff)
    from fresh have "filter (\<lambda>n. n = len)
        (concat (map (\<lambda>(len, count). replicate (nat count) len) spl)) = []"
      by (auto simp: filter_empty_conv image_iff)
    with True c entry show ?thesis by simp
  next
    case False
    with Cons.prems entry have "(len, count) \<in> set spl" and "distinct (map fst spl)"
      by auto
    with Cons.IH False entry show ?thesis by simp
  qed
qed

lemma built_length_positive: "1 \<le> len \<Longrightarrow> built_length len = len"
  by (simp add: built_length_def)

lemma fleet_ok_apart:
  assumes "fleet_ok w h ships" and "i < length ships" and "j < length ships" and "i \<noteq> j"
    and "a \<in> cells (ships ! i)" and "b \<in> cells (ships ! j)"
  shows "1 < chebyshev a b"
proof -
  have con: "constructed (ships ! i)" "constructed (ships ! j)"
    using assms(1-3) by (auto simp: fleet_ok_def)
  have sorted: "sorted_wrt (\<lambda>a b. \<not> is_near_ship a b) ships"
    using assms(1) by (simp add: fleet_ok_def)
  have "\<not> near a b"
  proof (cases "i < j")
    case True
    with sorted assms(3) have "\<not> is_near_ship (ships ! i) (ships ! j)"
      by (simp add: sorted_wrt_iff_nth_less)
    with assms(5,6) show ?thesis
      by (auto simp: is_near_ship_constructed[OF con(1)])
  next
    case False
    with assms(4) have "j < i" by simp
    with sorted assms(2) have "\<not> is_near_ship (ships ! j) (ships ! i)"
      by (simp add: sorted_wrt_iff_nth_less)
    with assms(5,6) have "\<not> near b a"
      by (auto simp: is_near_ship_constructed[OF con(2)])
    then show ?thesis using near_sym by blast
  qed
  then show ?thesis by (simp add: near_chebyshev)
qed

text \<open>
  Claim C1, as stated, fails for a length that is not positive. For the mapping \<open>{0: 1}\<close>
  on the default board, with the start cell \<open>(2, 1)\<close> drawn horizontal, the end cell is
  \<open>(1, 1)\<close>; the constructor normalises the endpoints, and the one ship returned has
  length 2, so the fleet holds no ship of length 0.
\<close>

theorem generate_ships_length_0_counterexample:
  "generate_ships (ShipFactory_init None (Some [(0, 1)])) [(1, 0, True)] =
     Returns [\<lparr>x_start = 1, y_start = 1, x_end = 2, y_end = 1,
               cells = {(1, 1), (2, 1)}, damaged_cells = {}\<rparr>] \<and>
   length_ship \<lparr>x_start = 1, y_start = 1, x_end = 2, y_end = 1,
               cells = {(1, 1), (2, 1)}, damaged_cells = {}\<rparr> = 2"
  by code_simp

text \<open>
  Claim C1, amended. Whenever \<open>generate_ships\<close> returns a list of ships: if every length
  of the mapping is at least 1 and every count at least 0, the list holds, for each
  entry, exactly count ships of that length; every occupied cell of every ship lies
  within the board; no cell of one ship is within Chebyshev distance 1 of a cell of
  another; and for the default factory the ships have the lengths 1 to 5, in this order.
\<close>

theorem generate_ships_fleet:
  assumes "generate_ships factory draws = Returns ships"
  shows "(distinct (map fst (ships_per_length factory)) \<and>
          (\<forall>(len, count) \<in> set (ships_per_length factory). 1 \<le> len \<and> 0 \<le> count) \<longrightarrow>
          (\<forall>(len, count) \<in> set (ships_per_length factory).
             int (length (filter (\<lambda>s. length_ship s = len) ships)) = count)) \<and>
         (\<forall>s \<in> set ships. \<forall>(x, y) \<in> cells s.
             1 \<le> x \<and> x \<le> fst (board_size factory) \<and>
             1 \<le> y \<and> y \<le> snd (board_size factory)) \<and>
         (\<forall>i < length ships. \<forall>j < length ships. i \<noteq> j \<longrightarrow>
             (\<forall>a \<in> cells (ships ! i). \<forall>b \<in> cells (ships ! j). 1 < chebyshev a b)) \<and>
         (factory = ShipFactory_init None None \<longrightarrow>
             map length_ship ships = [1, 2, 3, 4, 5])"
proof -
  let ?spl = "ships_per_length factory"
  from generate_ships_Returns[OF assms]
  have ok: "fleet_ok (fst (board_size factory)) (snd (board_size factory)) ships"
    and lens: "map length_ship ships =
      concat (map (\<lambda>(len, count). replicate (nat count) (built_length len)) ?spl)"
    by simp_all
  have counts: "int (length (filter (\<lambda>s. length_ship s = len) ships)) = count"
    if dist: "distinct (map fst ?spl)"
      and pos: "\<forall>(len, count) \<in> set ?spl. 1 \<le> len \<and> 0 \<le> count"
      and entry: "(len, count) \<in> set ?spl" for len count
  proof -
    have "map (\<lambda>(len, count). replicate (nat count) (built_length len)) ?spl =
          map (\<lambda>(len, count). replicate (nat count) len) ?spl"
      using pos by (auto simp: built_length_positive)
    with lens have "map length_ship ships =
        concat (map (\<lambda>(len, count). replicate (nat count) len) ?spl)"
      by simp
    then have "length (filter (\<lambda>n. n = len) (map length_ship ships)) = nat count"
      using count_in_replicated[OF dist entry] by simp
    moreover have "length (filter (\<lambda>n. n = len) (map length_ship ships)) =
        length (filter (\<lambda>s. length_ship s = len) ships)"
      by (simp add: filter_map comp_def)
    moreover from pos entry have "0 \<le> count" by auto
    ultimately show ?thesis by simp
  qed
  have within: "\<forall>s \<in> set ships. \<forall>(x, y) \<in> cells s.
      1 \<le> x \<and> x \<le> fst (board_size factory) \<and> 1 \<le> y \<and> y \<le> snd (board_size factory)"
    using ok by (fastforce simp: fleet_ok_def)
  have apart: "\<forall>i < length ships. \<forall>j < length ships. i \<noteq> j \<longrightarrow>
      (\<forall>a \<in> cells (ships ! i). \<forall>b \<in> cells (ships ! j). 1 < chebyshev a b)"
    using fleet_ok_apart[OF ok] by blast
  have default: "map length_ship ships = [1, 2, 3, 4, 5]"
    if "factory = ShipFactory_init None None"
    using lens unfolding that
    by (simp add: ShipFactory_init_def built_length_def)
  from counts within apart default show ?thesis by blast
qed

theorem generate_ships_fleet_witness:
  "generate_ships (ShipFactory_init None None)
     [(0, 0, True), (0, 2, True), (0, 4, True), (0, 6, True), (0, 8, True)] =
     Returns fleet_example \<and>
   map length_ship fleet_example = [1, 2, 3, 4, 5] \<and>
   length fleet_example = 5"
proof -
  have run: "generate_ships (ShipFactory_init None None)
     [(0, 0, True), (0, 2, True), (0, 4, True), (0, 6, True), (0, 8, True)] =
     Returns fleet_example"
    by code_simp
  from generate_ships_fleet[OF run]
  have "map length_ship fleet_example = [1, 2, 3, 4, 5]" by blast
  with run show ?thesis by simp
qed

lemma place_ship_too_long:
  "place_ship 1 1 2 ships draws = Running"
proof (induction draws)
  case Nil
  show ?case by simp
next
  case (Cons d draws)
  obtain rx ry is_hor where d: "d = (rx, ry, is_hor)" by (cases d)
  have "randrange 1 (1 + 1) rx = Inr 1" "randrange 1 (1 + 1) ry = Inr 1"
    by (simp_all add: randrange_def)
  then have "place_ship 1 1 2 ships (d # draws) = place_ship 1 1 2 ships draws"
    unfolding d by (simp add: Let_def)
  with Cons.IH show ?case by simp
qed

lemma Ship_init_1_1_to_1_1: "Ship_init (1, 1) (1, 1) = Inr ship_1_1_to_1_1"
  by code_simp

lemma Ship_init_1_1_to_2_1: "Ship_init (1, 1) (2, 1) = Inr ship_1_1_to_2_1"
  by code_simp

lemma near_1_1: "is_near_ship ship_1_1_to_1_1 ship_1_1_to_2_1"
  by code_simp

lemma randrange_10:
  "randrange 1 (10 + 1) 0 = Inr 1" "randrange 1 (10 + 1) 9 = Inr 10"
  by (simp_all add: randrange_def)

lemma place_ship_first:
  "place_ship 10 10 1 [] ((0, 0, True) # draws) = Returns ([ship_1_1_to_1_1], draws)"
  using randrange_10(1) Ship_init_1_1_to_1_1 by (simp add: Let_def)

lemma place_ship_blocked:
  "place_ship 10 10 2 [ship_1_1_to_1_1] (replicate n (0, 0, True)) = Running"
proof (induction n)
  case 0
  show ?case by simp
next
  case (Suc n)
  have "place_ship 10 10 2 [ship_1_1_to_1_1] ((0, 0, True) # replicate n (0, 0, True)) =
        place_ship 10 10 2 [ship_1_1_to_1_1] (replicate n (0, 0, True))"
    using randrange_10(1) Ship_init_1_1_to_2_1 near_1_1 by (simp add: Let_def)
  with Suc.IH show ?case by simp
qed

lemma place_ship_after_rejections:
  "place_ship 10 10 2 [] (replicate n (9, 0, True) @ [(0, 0, True)]) =
     Returns ([ship_1_1_to_2_1], [])"
proof (induction n)
  case 0
  show ?case using randrange_10(1) Ship_init_1_1_to_2_1 by (simp add: Let_def)
next
  case (Suc n)
  have "place_ship 10 10 2 [] ((9, 0, True) # replicate n (9, 0, True) @ [(0, 0, True)]) =
        place_ship 10 10 2 [] (replicate n (9, 0, True) @ [(0, 0, True)])"
    using randrange_10 by (simp add: Let_def)
  with Suc.IH show ?case by simp
qed

lemma place_ship_only_rejections:
  "place_ship 10 10 2 [] (replicate n (9, 0, True)) = Running"
proof (induction n)
  case 0
  show ?case by simp
next
  case (Suc n)
  have "place_ship 10 10 2 [] ((9, 0, True) # replicate n (9, 0, True)) =
        place_ship 10 10 2 [] (replicate n (9, 0, True))"
    using randrange_10 by (simp add: Let_def)
  with Suc.IH show ?case by simp
qed

text \<open>
  Claim C8. The placement loop has no bound on its iterations and can run forever.
  On a board of one cell a ship of length 2 never fits: whatever is drawn, the call is
  still running when the draws are used up. With the default factory and the draw
  \<open>(0, 0, True)\<close> repeated for ever, the ship of length 1 is placed at \<open>(1, 1)\<close> and
  every later candidate starts there and is rejected: the call is still running after
  every finite number of draws. And no number of iterations bounds a call that does
  return: for every \<open>n\<close> there are draws that are rejected \<open>n\<close> times before one is
  accepted.
\<close>

theorem generate_ships_may_run_forever:
  "(\<forall>draws. generate_ships (ShipFactory_init (Some (1, 1)) (Some [(2, 1)])) draws = Running) \<and>
   (\<forall>n. generate_ships (ShipFactory_init None None) (replicate n (0, 0, True)) = Running) \<and>
   (\<forall>n. generate_ships (ShipFactory_init None (Some [(2, 1)])) (replicate n (9, 0, True)) =
          Running \<and>
        generate_ships (ShipFactory_init None (Some [(2, 1)]))
          (replicate n (9, 0, True) @ [(0, 0, True)]) = Returns [ship_1_1_to_2_1])"
proof -
  have one: "nat 1 = Suc 0" by simp
  have small: "generate_ships (ShipFactory_init (Some (1, 1)) (Some [(2, 1)])) draws = Running"
    for draws
    by (simp add: generate_ships_def ShipFactory_init_def one place_ship_too_long)
  have blocked: "generate_ships (ShipFactory_init None None) (replicate n (0, 0, True)) = Running"
    for n
  proof (cases n)
    case 0
    then show ?thesis by (simp add: generate_ships_def ShipFactory_init_def one)
  next
    case (Suc m)
    then show ?thesis
      by (simp add: generate_ships_def ShipFactory_init_def one place_ship_first
          place_ship_blocked del: place_ship.simps)
  qed
  have unbounded: "generate_ships (ShipFactory_init None (Some [(2, 1)]))
        (replicate n (9, 0, True)) = Running \<and>
      generate_ships (ShipFactory_init None (Some [(2, 1)]))
        (replicate n (9, 0, True) @ [(0, 0, True)]) = Returns [ship_1_1_to_2_1]" for n
    by (simp add: generate_ships_def ShipFactory_init_def one place_ship_after_rejections
        place_ship_only_rejections del: place_ship.simps)
  from small blocked unbounded show ?thesis by blast
qed

section \<open>Properties of the automatic player\<close>

lemma within_board_cycle_update [simp]:
  "within_board (p\<lparr>cycle := c\<rparr>) coordinates = within_board p coordinates"
  by (simp add: within_board_def)

lemmas probe_defs = probe_from_0_def probe_from_1_def probe_from_2_def probe_from_3_def



lemma probe_from_0_cycle:
  assumes "0 \<le> cycle p" and "cycle p \<le> 4"
  shows "0 \<le> cycle (snd (probe_from_0 p x y)) \<and> cycle (snd (probe_from_0 p x y)) \<le> 4"
  using assms by (auto simp: probe_defs)

lemma select_target_cycle:
  assumes "select_target p rs = Returns (target, p')" and "0 \<le> cycle p" and "cycle p \<le> 4"
  shows "0 \<le> cycle p' \<and> cycle p' \<le> 4"
proof (cases "implement_strategy p")
  case True
  with assms(1) obtain x y q
    where probe: "probe_from_0 p x y = (target, q)" and p': "p' = snd (record_target q target)"
    by (auto simp: select_target_def strategy_function_def record_target_def
        split: option.splits sum.splits prod.splits)
  from p' have "cycle p' = cycle q"
    by (simp add: record_target_def)
  with probe_from_0_cycle[OF assms(2,3), of x y] probe show ?thesis by simp
next
  case False
  with assms(1) have "cycle p' = cycle p"
    by (auto simp: select_target_def record_target_def split: outcome.splits)
  with assms(2,3) show ?thesis by simp
qed

lemma receive_result_cycle:
  assumes "receive_result p is_ship_hit has_ship_sunk = Inr p'"
    and "0 \<le> cycle p" and "cycle p \<le> 4"
  shows "0 \<le> cycle p' \<and> cycle p' \<le> 4"
  using assms by (auto simp: receive_result_def split: if_splits option.splits)

lemma play_cycle:
  assumes "play calls targets p = Returns (targets', p')" and "0 \<le> cycle p" and "cycle p \<le> 4"
  shows "0 \<le> cycle p' \<and> cycle p' \<le> 4"
  using assms
proof (induction calls targets p rule: play.induct)
  case (1 targets p)
  then show ?case by simp
next
  case (2 rs calls targets p)
  from "2.prems"(1) obtain coordinates q
    where sel: "select_target p rs = Returns (coordinates, q)"
      and rest: "play calls (targets @ [coordinates]) q = Returns (targets', p')"
    by (auto split: outcome.splits)
  from select_target_cycle[OF sel "2.prems"(2,3)] have "0 \<le> cycle q" "cycle q \<le> 4"
    by simp_all
  with "2.IH"[OF sel refl rest] show ?case by simp
next
  case (3 is_ship_hit has_ship_sunk calls targets p)
  from "3.prems"(1) obtain q
    where res: "receive_result p is_ship_hit has_ship_sunk = Inr q"
      and rest: "play calls targets q = Returns (targets', p')"
    by (auto split: sum.splits)
  from receive_result_cycle[OF res "3.prems"(2,3)] have "0 \<le> cycle q" "cycle q \<le> 4"
    by simp_all
  with "3.IH"[OF res rest] show ?case by simp
qed

lemma within_board_attacked_update [simp]:
  "within_board (p\<lparr>attacked_positions := a\<rparr>) coordinates = within_board p coordinates"
  by (simp add: within_board_def)

lemma attacked_cycle_commute:
  "p\<lparr>attacked_positions := a, cycle := c\<rparr> = p\<lparr>cycle := c, attacked_positions := a\<rparr>"
  by (cases p) simp

lemma probe_from_3_attacked:
  "probe_from_3 (p\<lparr>attacked_positions := a\<rparr>) x y =
     (fst (probe_from_3 p x y), (snd (probe_from_3 p x y))\<lparr>attacked_positions := a\<rparr>)"
  by (simp add: probe_from_3_def)

lemma probe_from_3_attacked_cycle:
  "probe_from_3 (p\<lparr>attacked_positions := a, cycle := c\<rparr>) x y =
     (fst (probe_from_3 (p\<lparr>cycle := c\<rparr>) x y),
      (snd (probe_from_3 (p\<lparr>cycle := c\<rparr>) x y))\<lparr>attacked_positions := a\<rparr>)"
  unfolding attacked_cycle_commute by (rule probe_from_3_attacked)

lemma probe_from_2_attacked:
  "probe_from_2 (p\<lparr>attacked_positions := a\<rparr>) x y =
     (fst (probe_from_2 p x y), (snd (probe_from_2 p x y))\<lparr>attacked_positions := a\<rparr>)"
  by (simp add: probe_from_2_def probe_from_3_attacked probe_from_3_attacked_cycle)

lemma probe_from_2_attacked_cycle:
  "probe_from_2 (p\<lparr>attacked_positions := a, cycle := c\<rparr>) x y =
     (fst (probe_from_2 (p\<lparr>cycle := c\<rparr>) x y),
      (snd (probe_from_2 (p\<lparr>cycle := c\<rparr>) x y))\<lparr>attacked_positions := a\<rparr>)"
  unfolding attacked_cycle_commute by (rule probe_from_2_attacked)

lemma probe_from_1_attacked:
  "probe_from_1 (p\<lparr>attacked_positions := a\<rparr>) x y =
     (fst (probe_from_1 p x y), (snd (probe_from_1 p x y))\<lparr>attacked_positions := a\<rparr>)"
  by (simp add: probe_from_1_def probe_from_2_attacked probe_from_2_attacked_cycle)

lemma probe_from_1_attacked_cycle:
  "probe_from_1 (p\<lparr>attacked_positions := a, cycle := c\<rparr>) x y =
     (fst (probe_from_1 (p\<lparr>cycle := c\<rparr>) x y),
      (snd (probe_from_1 (p\<lparr>cycle := c\<rparr>) x y))\<lparr>attacked_positions := a\<rparr>)"
  unfolding attacked_cycle_commute by (rule probe_from_1_attacked)

lemma probe_from_0_attacked:
  "probe_from_0 (p\<lparr>attacked_positions := a\<rparr>) x y =
     (fst (probe_from_0 p x y), (snd (probe_from_0 p x y))\<lparr>attacked_positions := a\<rparr>)"
  by (simp add: probe_from_0_def probe_from_1_attacked probe_from_1_attacked_cycle)

lemma random_target_fresh:
  assumes "random_target p rs = Returns coordinates"
  shows "Some coordinates \<notin> set (attacked_positions p)"
  using assms
  by (induction rs) (auto split: sum.splits if_splits)



text \<open>
  Claim C6, as stated, fails: the counter reaches 4. A hit at \<open>(5, 5)\<close> that does not
  sink, followed by four probes that all miss, leaves \<open>cycle = 4\<close>, because
  \<open>receive_result\<close> increments the counter whenever it is below 4.
\<close>

theorem cycle_reaches_4_counterexample:
  "play miss_only_calls [] (AutomaticPlayer_init 10 10) =
     Returns ([Some (5, 5), Some (5, 6), Some (6, 5), Some (5, 4), Some (4, 5)],
              after_four_misses) \<and>
   cycle after_four_misses = 4"
  by code_simp

text \<open>
  Claim C6, amended. In every state reached from a new player by a sequence of
  \<open>select_target\<close> and \<open>receive_result\<close> calls, \<open>cycle\<close> is one of 0, 1, 2, 3, 4.
\<close>

theorem cycle_between_0_and_4:
  assumes "play calls [] (AutomaticPlayer_init width height) = Returns (targets, p)"
  shows "cycle p \<in> {0, 1, 2, 3, 4}"
proof -
  have "0 \<le> cycle p \<and> cycle p \<le> 4"
    by (rule play_cycle[OF assms]) (simp_all add: AutomaticPlayer_init_def)
  then show ?thesis by auto
qed

theorem cycle_between_0_and_4_witness:
  "play miss_only_calls [] (AutomaticPlayer_init 10 10) =
     Returns ([Some (5, 5), Some (5, 6), Some (6, 5), Some (5, 4), Some (4, 5)],
              after_four_misses) \<and>
   cycle after_four_misses \<in> {0, 1, 2, 3, 4}"
proof -
  have run: "play miss_only_calls [] (AutomaticPlayer_init 10 10) =
     Returns ([Some (5, 5), Some (5, 6), Some (6, 5), Some (5, 4), Some (4, 5)],
              after_four_misses)"
    by code_simp
  from run cycle_between_0_and_4[OF run] show ?thesis by blast
qed




text \<open>
  Claim C10. In the random branch the target returned is never in
  \<open>attacked_positions\<close>. In hunting mode the target does not depend on
  \<open>attacked_positions\<close> at all, and a play reaches a state where the target returned is
  already there: \<open>(5, 6)\<close> is attacked at random and misses, \<open>(5, 5)\<close> is attacked at
  random and hits, and the first probe of the hunt is \<open>(5, 6)\<close> again.
\<close>

theorem select_target_checks_random_branch_only:
  "(\<not> implement_strategy p \<and> select_target p rs = Returns (target, p') \<longrightarrow>
      target \<notin> set (attacked_positions p)) \<and>
   (implement_strategy p \<longrightarrow>
      map_outcome fst (select_target (p\<lparr>attacked_positions := attacked\<rparr>) rs) =
      map_outcome fst (select_target p rs)) \<and>
   play [Select [(4, 5)], Result False False, Select [(4, 4)], Result True False] []
     (AutomaticPlayer_init 10 10) =
     Returns ([Some (5, 6), Some (5, 5)], hunting_after_random_miss) \<and>
   implement_strategy hunting_after_random_miss \<and>
   Some (5, 6) \<in> set (attacked_positions hunting_after_random_miss) \<and>
   select_target hunting_after_random_miss [] =
     Returns (Some (5, 6), hunting_after_random_miss
       \<lparr>previous_coordinates := Some (5, 6),
        attacked_positions := [Some (5, 6), Some (5, 5), Some (5, 6)]\<rparr>)"
proof -
  have checked: "target \<notin> set (attacked_positions p)"
    if "\<not> implement_strategy p" "select_target p rs = Returns (target, p')"
    using that random_target_fresh[of p rs]
    by (auto simp: select_target_def record_target_def split: outcome.splits)
  have ignored: "map_outcome fst (select_target (p\<lparr>attacked_positions := attacked\<rparr>) rs) =
      map_outcome fst (select_target p rs)"
    if "implement_strategy p"
  proof (cases "previous_coordinates p")
    case None
    with that show ?thesis
      by (simp add: select_target_def strategy_function_def)
  next
    case (Some c)
    obtain x y where "c = (x, y)" by (cases c)
    with Some that show ?thesis
      by (simp add: select_target_def strategy_function_def record_target_def
          probe_from_0_attacked split_beta)
  qed
  have trace: "play [Select [(4, 5)], Result False False, Select [(4, 4)], Result True False] []
     (AutomaticPlayer_init 10 10) =
     Returns ([Some (5, 6), Some (5, 5)], hunting_after_random_miss)"
    by code_simp
  have repeated: "select_target hunting_after_random_miss [] =
     Returns (Some (5, 6), hunting_after_random_miss
       \<lparr>previous_coordinates := Some (5, 6),
        attacked_positions := [Some (5, 6), Some (5, 5), Some (5, 6)]\<rparr>)"
    by code_simp
  from checked ignored trace repeated show ?thesis by simp
qed

theorem select_target_checks_random_branch_only_witness:
  "\<not> implement_strategy (AutomaticPlayer_init 10 10) \<and>
   select_target (AutomaticPlayer_init 10 10) [(4, 5)] =
     Returns (Some (5, 6), (AutomaticPlayer_init 10 10)
       \<lparr>previous_coordinates := Some (5, 6), attacked_positions := [Some (5, 6)]\<rparr>) \<and>
   Some (5, 6) \<notin> set (attacked_positions (AutomaticPlayer_init 10 10)) \<and>
   map_outcome fst
     (select_target (hunting_after_random_miss\<lparr>attacked_positions := []\<rparr>) []) =
   map_outcome fst (select_target hunting_after_random_miss [])"
proof -
  have idle: "\<not> implement_strategy (AutomaticPlayer_init 10 10)"
    by (simp add: AutomaticPlayer_init_def)
  have sel: "select_target (AutomaticPlayer_init 10 10) [(4, 5)] =
     Returns (Some (5, 6), (AutomaticPlayer_init 10 10)
       \<lparr>previous_coordinates := Some (5, 6), attacked_positions := [Some (5, 6)]\<rparr>)"
    by code_simp
  from select_target_checks_random_branch_only[of "AutomaticPlayer_init 10 10" "[(4, 5)]"
      "Some (5, 6)" "(AutomaticPlayer_init 10 10)
       \<lparr>previous_coordinates := Some (5, 6), attacked_positions := [Some (5, 6)]\<rparr>" "[]"]
    idle sel
  have fresh: "Some (5, 6) \<notin> set (attacked_positions (AutomaticPlayer_init 10 10))"
    by simp
  from select_target_checks_random_branch_only[of hunting_after_random_miss "[]" None
      hunting_after_random_miss "[]"]
  have same: "map_outcome fst
     (select_target (hunting_after_random_miss\<lparr>attacked_positions := []\<rparr>) []) =
   map_outcome fst (select_target hunting_after_random_miss [])"
    by simp
  from idle sel fresh same show ?thesis by simp
qed

end
